theory Spec2Isabelle
  imports Main
begin

section \<open>The timeline viewer: data model\<close>

text \<open>
  The events of a timeline container, as \<open>timeline_view.py\<close> reads them: the table
  columns are \<open>event.id\<close>, \<open>timestamp\<close> and \<open>subject\<close>, the message renderer reads
  \<open>type\<close>. Python integers are unbounded, hence \<open>int\<close>.
\<close>

record event =
  ev_id :: int
  timestamp :: int
  subject :: string
  ev_type :: string

text \<open>
  Exceptions are values. \<open>KeyError\<close> is what a cache lookup raises on a missing or
  expired key, \<open>ValueError\<close> what \<open>int()\<close> raises on text that is no integer literal,
  \<open>FormatError\<close> stands for the \<open>TypeError\<close> or \<open>ValueError\<close> of the string
  operator \<open>%\<close>, and \<open>StoreError\<close> wraps what the backing store raises.
\<close>

datatype store_error = NotFoundError | AccessError | InvalidQueryError | TransientStoreError

datatype py_error = KeyError | ValueError | FormatError | StoreError store_error

text \<open>
  Modelled from the spec: the backing store (\<open>grr.lib.aff4\<close>) is not among the sources.
  An iterator is a stateful handle over a finite sequence of events that is consumed
  front to back and never restarts: its state is the list of the events it has yet to
  produce. \<open>aff4.FACTORY.Open(container, token)\<close> either raises or yields an object
  \<open>fd\<close>; iterating \<open>fd\<close> produces all events of the container, \<open>fd.Query(query)\<close>
  either raises or yields a fresh iterator positioned at the first matching event.
  The factory is a parameter of everything below; as a function it gives the same
  events at every call (a stable event set).
\<close>

type_synonym iterator = "event list"

record fd =
  fd_children :: "event list"
  fd_Query :: "string \<Rightarrow> store_error + iterator"

type_synonym factory = "string \<Rightarrow> string \<Rightarrow> store_error + fd"

definition FACTORY_Open :: "factory \<Rightarrow> string \<Rightarrow> string \<Rightarrow> py_error + fd" where
  "FACTORY_Open factory container tok =
     (case factory container tok of Inl e \<Rightarrow> Inl (StoreError e) | Inr fd \<Rightarrow> Inr fd)"

definition Query :: "fd \<Rightarrow> string \<Rightarrow> py_error + iterator" where
  "Query fd q = (case fd_Query fd q of Inl e \<Rightarrow> Inl (StoreError e) | Inr events \<Rightarrow> Inr events)"

text \<open>
  The request parameters the views read: \<open>request.REQ.get("container")\<close>,
  \<open>request.REQ.get("query", "")\<close>, \<open>request.REQ.get("event")\<close> (absent is \<open>None\<close>)
  and \<open>request.token\<close>.
\<close>

record request =
  REQ_container :: string
  REQ_query :: string
  REQ_event :: "string option"
  token :: string

text \<open>
  Modelled from the spec: \<open>utils.TimeBasedCache\<close> is not among the sources. It is a
  key-value store whose entries disappear when their time to live is over. \<open>Get\<close> raises
  \<open>KeyError\<close> on a key that is absent or expired, \<open>ExpireObject\<close> removes an entry,
  \<open>Put\<close> stores one. The passing of time is \<open>expire\<close>, which removes any set of keys
  between two calls.
\<close>

type_synonym cache = "string \<rightharpoonup> iterator"

definition cache_Get :: "cache \<Rightarrow> string \<Rightarrow> py_error + iterator" where
  "cache_Get c k = (case c k of None \<Rightarrow> Inl KeyError | Some events \<Rightarrow> Inr events)"

definition cache_ExpireObject :: "cache \<Rightarrow> string \<Rightarrow> cache" where
  "cache_ExpireObject c k = c(k := None)"

definition cache_Put :: "cache \<Rightarrow> string \<Rightarrow> iterator \<Rightarrow> cache" where
  "cache_Put c k events = c(k \<mapsto> events)"

definition expire :: "string set \<Rightarrow> cache \<Rightarrow> cache" where
  "expire K c = c |` (- K)"

text \<open>\<open>EventTable.__init__\<close> creates the shared cache once, empty.\<close>

definition init_content_cache :: cache where
  "init_content_cache = Map.empty"

section \<open>Python text operations\<close>

text \<open>The decimal text of an integer, as \<open>%d\<close> and \<open>str\<close> give it.\<close>

definition digit_char :: "nat \<Rightarrow> char" where
  "digit_char d = char_of (48 + d)"

fun str_of_nat :: "nat \<Rightarrow> string" where
  "str_of_nat n = (if n < 10 then [digit_char n] else str_of_nat (n div 10) @ [digit_char (n mod 10)])"

declare str_of_nat.simps [simp del]

definition str_of_int :: "int \<Rightarrow> string" where
  "str_of_int i = (if i < 0 then CHR ''-'' # str_of_nat (nat (- i)) else str_of_nat (nat i))"

definition is_digit :: "char \<Rightarrow> bool" where
  "is_digit c = (48 \<le> (of_char c :: nat) \<and> (of_char c :: nat) \<le> 57)"

definition digit_val :: "char \<Rightarrow> nat" where
  "digit_val c = of_char c - 48"

text \<open>
  \<open>key % row\<close> for \<open>key = prefix + ":%d"\<close> and an integer \<open>row\<close>. The operator copies
  the text up to a \<open>%\<close> and then reads a conversion: flags (\<open>- + space # 0\<close>), a width
  (digits or \<open>*\<close>), a precision (\<open>.\<close> and digits or \<open>*\<close>), a length letter (\<open>h l L\<close>)
  and the conversion character. The conversion \<open>%\<close> writes a percent sign, padded with
  blanks to the width, and takes no argument; every other conversion, and \<open>*\<close>, takes
  the next argument. \<open>row\<close> is the only argument and the closing \<open>%d\<close> needs it, so the
  operator raises as soon as the prefix holds anything but text and \<open>%\<close> conversions:
  a mapping key \<open>%(\<close>, an unknown conversion character, or an earlier conversion that took
  \<open>row\<close>; a conversion that the prefix leaves unfinished meets the \<open>:\<close> of the key. A
  width beyond the machine word (\<open>2^63 - 1\<close>) or a precision beyond \<open>2^31 - 1\<close> raises
  too. \<open>fstate\<close> is the position inside a conversion, with the flag \<open>-\<close> seen so
  far, the width and the precision read: after \<open>%\<close>, among the flags, in the width,
  after the dot, in the precision, before the conversion character.
\<close>

datatype fstate = Lit | Start | Flags bool | Width bool nat | Dot bool nat | Prec bool nat nat
  | Conv bool nat

definition pad_percent :: "bool \<Rightarrow> nat \<Rightarrow> string" where
  "pad_percent ljust width =
     (if ljust then CHR ''%'' # replicate (width - 1) CHR '' ''
      else replicate (width - 1) CHR '' '' @ [CHR ''%''])"

text \<open>
  One character of the prefix: the next position and the text written, or \<open>None\<close> when
  the operator raises. A character that does not continue the part being read is handed
  to the part that follows (\<open>step_dot\<close>, \<open>step_len\<close>, \<open>step_conv\<close>).
\<close>

definition step_conv :: "bool \<Rightarrow> nat \<Rightarrow> char \<Rightarrow> (fstate \<times> string) option" where
  "step_conv ljust w c = (if c = CHR ''%'' then Some (Lit, pad_percent ljust w) else None)"

definition step_len :: "bool \<Rightarrow> nat \<Rightarrow> char \<Rightarrow> (fstate \<times> string) option" where
  "step_len ljust w c = (if c \<in> set ''hlL'' then Some (Conv ljust w, []) else step_conv ljust w c)"

definition step_dot :: "bool \<Rightarrow> nat \<Rightarrow> char \<Rightarrow> (fstate \<times> string) option" where
  "step_dot ljust w c = (if c = CHR ''.'' then Some (Dot ljust w, []) else step_len ljust w c)"

definition step_flags :: "bool \<Rightarrow> char \<Rightarrow> (fstate \<times> string) option" where
  "step_flags ljust c =
     (if c = CHR ''-'' then Some (Flags True, [])
      else if c \<in> set ''+ #0'' then Some (Flags ljust, [])
      else if c = CHR ''*'' then None
      else if is_digit c then Some (Width ljust (digit_val c), [])
      else step_dot ljust 0 c)"

fun step :: "fstate \<Rightarrow> char \<Rightarrow> (fstate \<times> string) option" where
  "step Lit c = (if c = CHR ''%'' then Some (Start, []) else Some (Lit, [c]))"
| "step Start c = (if c = CHR ''('' then None else step_flags False c)"
| "step (Flags ljust) c = step_flags ljust c"
| "step (Width ljust w) c =
     (if is_digit c then
        (if w > (2 ^ 63 - 1 - digit_val c) div 10 then None
         else Some (Width ljust (w * 10 + digit_val c), []))
      else step_dot ljust w c)"
| "step (Dot ljust w) c =
     (if c = CHR ''*'' then None
      else if is_digit c then Some (Prec ljust w (digit_val c), [])
      else step_len ljust w c)"
| "step (Prec ljust w p) c =
     (if is_digit c then
        (if p > (2 ^ 31 - 1 - digit_val c) div 10 then None
         else Some (Prec ljust w (p * 10 + digit_val c), []))
      else step_len ljust w c)"
| "step (Conv ljust w) c = step_conv ljust w c"

fun format_prefix :: "fstate \<Rightarrow> string \<Rightarrow> py_error + string" where
  "format_prefix st [] = (if st = Lit then Inr [] else Inl FormatError)"
| "format_prefix st (c # cs) =
     (case step st c of None \<Rightarrow> Inl FormatError
      | Some (st', out) \<Rightarrow>
          (case format_prefix st' cs of Inl e \<Rightarrow> Inl e | Inr rest \<Rightarrow> Inr (out @ rest)))"

definition format_key :: "string \<Rightarrow> int \<Rightarrow> py_error + string" where
  "format_key prefix row =
     (case format_prefix Lit prefix of Inl e \<Rightarrow> Inl e
      | Inr text \<Rightarrow> Inr (text @ '':'' @ str_of_int row))"

text \<open>
  \<open>int(text)\<close> on the text of a request parameter. A character is a code point below
  256. The text may have blanks around (the characters that count as space in such text:
  \<open>U+0009\<close> to \<open>U+000D\<close>, \<open>U+001C\<close> to \<open>U+0020\<close>, \<open>U+0085\<close> and \<open>U+00A0\<close>), then
  an optional sign and one or more decimal digits, which below 256 are \<open>0\<close> to \<open>9\<close>;
  anything else raises \<open>ValueError\<close>.
\<close>

definition is_space :: "char \<Rightarrow> bool" where
  "is_space c =
     (c \<in> set [CHR 0x09, CHR 0x0A, CHR 0x0B, CHR 0x0C, CHR 0x0D, CHR 0x1C, CHR 0x1D, CHR 0x1E,
               CHR 0x1F, CHR 0x20, CHR 0x85, CHR 0xA0])"

definition strip :: "string \<Rightarrow> string" where
  "strip s = rev (dropWhile is_space (rev (dropWhile is_space s)))"

definition nat_of_digits :: "string \<Rightarrow> nat" where
  "nat_of_digits ds = foldl (\<lambda>a c. a * 10 + digit_val c) 0 ds"

definition py_int :: "string \<Rightarrow> py_error + int" where
  "py_int s =
     (let t = strip s;
          neg = (t \<noteq> [] \<and> hd t = CHR ''-'');
          ds = (if t \<noteq> [] \<and> hd t \<in> set ''+-'' then tl t else t)
      in if ds \<noteq> [] \<and> list_all is_digit ds
         then Inr (if neg then - int (nat_of_digits ds) else int (nat_of_digits ds))
         else Inl ValueError)"

section \<open>EventTable.BuildTable\<close>

text \<open>
  Modelled from the spec: \<open>utils.SmartUnicode\<close> is not among the sources; the container
  is a string already and stays as it is.
\<close>

definition SmartUnicode :: "string \<Rightarrow> string" where
  "SmartUnicode s = s"

text \<open>
  What a call leaves behind: the rows added to the table, in the order they were added
  (\<open>AddCell\<close> and \<open>AddRowFromFd\<close> file the child under the row index \<open>act_row\<close>), the
  new value of \<open>self.size\<close> when the call sets it, and the shared cache.
\<close>

record table =
  rows :: "(int \<times> event) list"
  table_size :: "int option"
  content_cache :: cache

text \<open>
  The loop \<open>for child in events\<close>. It ends either because the iterator is exhausted
  (second component \<open>None\<close>) or by the \<open>return\<close> at \<open>act_row >= end_row\<close>, with the
  row counter and the iterator as it stands then, the children consumed so far gone.
\<close>

fun BuildTable_loop ::
  "iterator \<Rightarrow> int \<Rightarrow> int \<Rightarrow> int \<Rightarrow> (int \<times> event) list
     \<Rightarrow> (int \<times> event) list \<times> (int \<times> iterator) option" where
  "BuildTable_loop [] act_row start_row end_row acc = (acc, None)"
| "BuildTable_loop (child # events) act_row start_row end_row acc =
     (if act_row < start_row then BuildTable_loop events (act_row + 1) start_row end_row acc
      else
        (let acc' = acc @ [(act_row, child)];
             act_row' = act_row + 1
         in if act_row' \<ge> end_row then (acc', Some (act_row', events))
            else BuildTable_loop events act_row' start_row end_row acc'))"

text \<open>
  After the loop: on the early \<open>return\<close> the size is set and the iterator is put into the
  cache under \<open>key % act_row\<close>; otherwise nothing more happens.
\<close>

definition BuildTable_finish ::
  "string \<Rightarrow> cache \<Rightarrow> (int \<times> event) list \<times> (int \<times> iterator) option \<Rightarrow> py_error + table" where
  "BuildTable_finish key c r =
     (case snd r of
        None \<Rightarrow> Inr \<lparr>rows = fst r, table_size = None, content_cache = c\<rparr>
      | Some (act_row, events) \<Rightarrow>
          (case format_key key act_row of Inl e \<Rightarrow> Inl e
           | Inr k \<Rightarrow> Inr \<lparr>rows = fst r, table_size = Some (act_row + 1),
                           content_cache = cache_Put c k events\<rparr>))"

text \<open>
  \<open>BuildTable(self, start_row, end_row, request)\<close>. \<open>key\<close> is the text before the
  closing \<open>:%d\<close>. The \<open>try\<close> block catches \<open>KeyError\<close> only.
\<close>

definition BuildTable :: "factory \<Rightarrow> cache \<Rightarrow> int \<Rightarrow> int \<Rightarrow> request \<Rightarrow> py_error + table" where
  "BuildTable factory c start_row end_row request =
     (let query = REQ_query request;
          container = REQ_container request;
          key = SmartUnicode container @ '':'' @ query
      in case format_key key start_row of Inl e \<Rightarrow> Inl e
         | Inr k \<Rightarrow>
             (case cache_Get c k of
                Inr events \<Rightarrow>
                  BuildTable_finish key (cache_ExpireObject c k)
                    (BuildTable_loop events start_row start_row end_row [])
              | Inl e \<Rightarrow>
                  if e \<noteq> KeyError then Inl e
                  else
                    (case FACTORY_Open factory container (token request) of Inl e \<Rightarrow> Inl e
                     | Inr fd \<Rightarrow>
                         (case Query fd query of Inl e \<Rightarrow> Inl e
                          | Inr events \<Rightarrow>
                              BuildTable_finish key c
                                (BuildTable_loop events 0 start_row end_row [])))))"

text \<open>The table tells its caller that more rows exist by setting \<open>self.size\<close>.\<close>

definition hasMore :: "table \<Rightarrow> bool" where
  "hasMore t = (table_size t \<noteq> None)"

section \<open>EventSubjectView.GetEvent\<close>

text \<open>
  The function returns the first child whose id is the requested one, and \<open>None\<close> when
  the loop ends without finding it or when the guard on \<open>event_id\<close> fails.
\<close>

definition GetEvent :: "factory \<Rightarrow> request \<Rightarrow> py_error + event option" where
  "GetEvent factory request =
     (case REQ_event request of
        None \<Rightarrow> Inr None
      | Some event_id \<Rightarrow>
          if event_id = ''null'' then Inr None
          else
            (case py_int event_id of Inl e \<Rightarrow> Inl e
             | Inr n \<Rightarrow>
                 (case FACTORY_Open factory (REQ_container request) (token request) of
                    Inl e \<Rightarrow> Inl e
                  | Inr fd \<Rightarrow> Inr (find (\<lambda>child. ev_id child = n) (fd_children fd)))))"

section \<open>EventMessageRenderer\<close>

text \<open>
  \<open>default_template\<close> is the triple-quoted template of the class, line breaks included.
  \<open>event_template_dispatcher\<close> is the dictionary of the class; \<open>Layout\<close> selects
  \<open>event_template_dispatcher.get(self.type, self.default_template)\<close> and hands over to
  the \<open>Layout\<close> of the base class, which renders the selected template.
\<close>

definition default_template :: string where
  "default_template = CHR 0x0A # ''Event of type {{this.type|escape}}'' @ [CHR 0x0A]"

definition event_template_dispatcher :: "string \<rightharpoonup> string" where
  "event_template_dispatcher = map_of
     [(''file.mtime'', ''<div><pre class='inline'>M--</pre> File modified.</div>''),
      (''file.atime'', ''<div><pre class='inline'>-A-</pre> File access.</div>''),
      (''file.ctime'', ''<div><pre class='inline'>--C</pre> File metadata changed.</div>'')]"

definition dict_get :: "('k \<rightharpoonup> 'v) \<Rightarrow> 'k \<Rightarrow> 'v \<Rightarrow> 'v" where
  "dict_get d k dflt = (case d k of None \<Rightarrow> dflt | Some v \<Rightarrow> v)"

text \<open>
  Modelled from the spec: \<open>renderers.Template\<close> and the \<open>Layout\<close> of the base class,
  which renders \<open>self.layout_template\<close> with the renderer as \<open>this\<close>, are not among the
  sources. Rendering copies the text of the template and writes the value of
  \<open>this.type\<close> in place of \<open>{{this.type|escape}}\<close>, the only variable these templates
  have, under the filter the template names: \<open>escape\<close> replaces the five characters
  \<open>&\<close>, \<open><\<close>, \<open>>\<close>, the double and the single quote by their HTML entities. The
  first argument of \<open>render\<close> counts the characters of a variable still to be passed over.
\<close>

definition escape_char :: "char \<Rightarrow> string" where
  "escape_char c =
     (if c = CHR ''&'' then ''&amp;''
      else if c = CHR ''<'' then ''&lt;''
      else if c = CHR ''>'' then ''&gt;''
      else if c = CHR 0x22 then ''&quot;''
      else if c = CHR 0x27 then ''&#39;''
      else [c])"

definition escape :: "string \<Rightarrow> string" where
  "escape s = concat (map escape_char s)"

definition type_variable :: string where
  "type_variable = ''{{this.type|escape}}''"

fun render :: "nat \<Rightarrow> string \<Rightarrow> string \<Rightarrow> string" where
  "render skip [] this_type = []"
| "render (Suc skip) (c # cs) this_type = render skip cs this_type"
| "render 0 (c # cs) this_type =
     (if take (length type_variable) (c # cs) = type_variable
      then escape this_type @ render (length type_variable - 1) cs this_type
      else c # render 0 cs this_type)"

definition EventMessageRenderer_Layout :: "event \<Rightarrow> string" where
  "EventMessageRenderer_Layout proxy =
     (let this_type = ev_type proxy;
          layout_template = dict_get event_template_dispatcher this_type default_template
      in render 0 layout_template this_type)"

section \<open>Checkpoints: what the cache is meant to hold\<close>

text \<open>
  \<open>key_of\<close> is the text of \<open>key\<close> before the closing \<open>:%d\<close>, \<open>key_at\<close> a
  formatted key, and \<open>fresh_query\<close> the two store calls of the \<open>except\<close> branch:
  the iterator a call gets when it finds nothing in the cache.
\<close>

definition key_of :: "request \<Rightarrow> string" where
  "key_of r = SmartUnicode (REQ_container r) @ '':'' @ REQ_query r"

definition key_at :: "string \<Rightarrow> int \<Rightarrow> string" where
  "key_at p row = p @ '':'' @ str_of_int row"

definition fresh_query :: "factory \<Rightarrow> request \<Rightarrow> py_error + iterator" where
  "fresh_query f r =
     (case FACTORY_Open f (REQ_container r) (token r) of Inl e \<Rightarrow> Inl e
      | Inr fd \<Rightarrow> Query fd (REQ_query r))"

text \<open>
  An iterator is a checkpoint of a request at a row when it is what a fresh query of
  that request becomes after that many events have been consumed. A cache is coherent for
  a request when every entry under one of the request's keys is the checkpoint at the
  row of the key.
\<close>

definition checkpoint :: "factory \<Rightarrow> request \<Rightarrow> int \<Rightarrow> iterator \<Rightarrow> bool" where
  "checkpoint f r row events =
     (0 \<le> row \<and> (case fresh_query f r of Inl e \<Rightarrow> False | Inr all \<Rightarrow> events = drop (nat row) all))"

definition coherent_for :: "factory \<Rightarrow> request \<Rightarrow> cache \<Rightarrow> bool" where
  "coherent_for f r c =
     (\<forall>row k events. format_key (key_of r) row = Inr k \<longrightarrow> c k = Some events \<longrightarrow>
        checkpoint f r row events)"

text \<open>
  The closed form of a call on a coherent cache, for a query with the events \<open>all\<close>.
  The first row filled is \<open>first_row\<close>; the loop returns when the row counter reaches
  \<open>stop_row\<close>, which is \<open>end_row\<close> for a window with \<open>0 \<le> start_row < end_row\<close>
  (the test comes after a row has been added, so a call fills one row at least).
\<close>

definition first_row :: "int \<Rightarrow> int" where
  "first_row s = max 0 s"

definition stop_row :: "int \<Rightarrow> int \<Rightarrow> int" where
  "stop_row s e = max e (max 0 s + 1)"

definition window_rows :: "iterator \<Rightarrow> int \<Rightarrow> int \<Rightarrow> (int \<times> event) list" where
  "window_rows all s e = zip [first_row s..stop_row s e - 1] (drop (nat (first_row s)) all)"

definition window_table :: "string \<Rightarrow> cache \<Rightarrow> iterator \<Rightarrow> int \<Rightarrow> int \<Rightarrow> table" where
  "window_table p c all s e =
     \<lparr>rows = window_rows all s e,
      table_size = (if stop_row s e \<le> int (length all) then Some (stop_row s e + 1) else None),
      content_cache =
        (if stop_row s e \<le> int (length all)
         then (c(key_at p s := None))(key_at p (stop_row s e) \<mapsto> drop (nat (stop_row s e)) all)
         else c(key_at p s := None))\<rparr>"

definition expected_rows :: "factory \<Rightarrow> request \<Rightarrow> int \<Rightarrow> int \<Rightarrow> py_error + (int \<times> event) list" where
  "expected_rows f r s e =
     (case format_prefix Lit (key_of r) of Inl err \<Rightarrow> Inl err
      | Inr p \<Rightarrow> (case fresh_query f r of Inl err \<Rightarrow> Inl err
                  | Inr all \<Rightarrow> Inr (window_rows all s e)))"

text \<open>
  The caches a request meets while its keys are its own: the initial one, what is left
  of a cache after entries have expired, and what a successful call leaves behind, be it
  a call for the request itself or for any other request, as long as that other request
  either has another key text or gets the same answer from the store. The program can
  reach more caches than these. What \<open>reachable\<close> leaves out are the caches after a call
  for a request with the same key text and another answer: another container and query
  whose texts join to the same key, or the same container and query under a token that
  the store answers differently. The properties proved of reachable caches are stated for
  them only; what happens outside is shown on examples.
\<close>

inductive reachable :: "factory \<Rightarrow> request \<Rightarrow> cache \<Rightarrow> bool" for f r where
  init: "reachable f r init_content_cache"
| expired: "reachable f r c \<Longrightarrow> reachable f r (expire K c)"
| call: "reachable f r c \<Longrightarrow> BuildTable f c s e r' = Inr t \<Longrightarrow>
         (format_prefix Lit (key_of r') = format_prefix Lit (key_of r) \<longrightarrow>
            fresh_query f r' = fresh_query f r) \<Longrightarrow>
         reachable f r (content_cache t)"

text \<open>
  A caller going through consecutive windows: \<open>start_row\<close>, then the end row of each
  window in turn, with the set of keys that expire before each call. The rows of the
  calls are concatenated; the first exception ends the run.
\<close>

fun FetchWindows ::
  "factory \<Rightarrow> cache \<Rightarrow> request \<Rightarrow> int \<Rightarrow> (string set \<times> int) list \<Rightarrow> py_error + (int \<times> event) list" where
  "FetchWindows f c r start_row [] = Inr []"
| "FetchWindows f c r start_row ((K, end_row) # ws) =
     (case BuildTable f (expire K c) start_row end_row r of Inl err \<Rightarrow> Inl err
      | Inr t \<Rightarrow>
          (case FetchWindows f (content_cache t) r end_row ws of Inl err \<Rightarrow> Inl err
           | Inr rest \<Rightarrow> Inr (rows t @ rest)))"

section \<open>Example stores\<close>

text \<open>
  A timeline of \<open>n\<close> events with consecutive ids from \<open>base\<close>, and a store given by
  a table from containers to their events, whose queries match every event. The two
  requests below differ in container and query and have the same key text.
\<close>

definition timeline :: "int \<Rightarrow> nat \<Rightarrow> event list" where
  "timeline base n =
     map (\<lambda>i. \<lparr>ev_id = base + int i, timestamp = 1300000000 + int i,
               subject = ''aff4:/C.1/fs/os/etc/passwd'', ev_type = ''file.mtime''\<rparr>) [0..<n]"

definition store_of :: "(string \<times> event list) list \<Rightarrow> factory" where
  "store_of tab container tok =
     (case map_of tab container of None \<Rightarrow> Inl NotFoundError
      | Some events \<Rightarrow> Inr \<lparr>fd_children = events, fd_Query = (\<lambda>q. Inr events)\<rparr>)"

definition example_request :: request where
  "example_request =
     \<lparr>REQ_container = ''aff4:/C.1/t'', REQ_query = ''x:y'', REQ_event = None, token = ''tok''\<rparr>"

definition colliding_request :: request where
  "colliding_request =
     \<lparr>REQ_container = ''aff4:/C.1/t:x'', REQ_query = ''y'', REQ_event = None, token = ''tok''\<rparr>"

definition example_store :: "nat \<Rightarrow> factory" where
  "example_store n = store_of [(''aff4:/C.1/t'', timeline 0 n), (''aff4:/C.1/t:x'', timeline 100 n)]"

text \<open>
  The same two containers with timelines of different lengths, and a store that answers
  one token only.
\<close>

definition uneven_store :: "nat \<Rightarrow> nat \<Rightarrow> factory" where
  "uneven_store m n =
     store_of [(''aff4:/C.1/t'', timeline 0 m), (''aff4:/C.1/t:x'', timeline 100 n)]"

definition guarded_store :: "nat \<Rightarrow> factory" where
  "guarded_store n container tok =
     (if tok = ''tok'' then example_store n container tok else Inl AccessError)"

definition other_token_request :: request where
  "other_token_request =
     \<lparr>REQ_container = ''aff4:/C.1/t'', REQ_query = ''x:y'', REQ_event = None, token = ''bob''\<rparr>"

section \<open>Decimal text is injective\<close>

lemma digit_val_digit_char: "d < 10 \<Longrightarrow> digit_val (digit_char d) = d"
  by (simp add: digit_val_def digit_char_def)

lemma nat_of_digits_snoc: "nat_of_digits (ds @ [c]) = nat_of_digits ds * 10 + digit_val c"
  by (simp add: nat_of_digits_def)

lemma nat_of_digits_str_of_nat: "nat_of_digits (str_of_nat n) = n"
proof (induction n rule: str_of_nat.induct)
  case (1 n)
  show ?case
  proof (cases "n < 10")
    case True
    then show ?thesis
      by (subst str_of_nat.simps) (simp add: nat_of_digits_def digit_val_digit_char)
  next
    case False
    with 1 show ?thesis
      by (subst str_of_nat.simps) (simp add: nat_of_digits_snoc digit_val_digit_char)
  qed
qed

lemma digit_char_neq: "d < 10 \<Longrightarrow> digit_char d \<noteq> CHR ''-'' \<and> digit_char d \<noteq> CHR '':''"
  by (auto simp: digit_char_def dest!: arg_cong [where f = "of_char :: char \<Rightarrow> nat"])

lemma str_of_nat_chars: "c \<in> set (str_of_nat n) \<Longrightarrow> c \<noteq> CHR ''-'' \<and> c \<noteq> CHR '':''"
proof (induction n rule: str_of_nat.induct)
  case (1 n)
  show ?case
  proof (cases "n < 10")
    case True
    with 1(2) show ?thesis
      by (subst (asm) str_of_nat.simps) (simp add: digit_char_neq)
  next
    case False
    with 1 show ?thesis
      by (subst (asm) (2) str_of_nat.simps) (auto simp add: digit_char_neq)
  qed
qed

lemma str_of_nat_nonempty: "str_of_nat n \<noteq> []"
  by (subst str_of_nat.simps) simp

lemma str_of_nat_inj: "str_of_nat m = str_of_nat n \<Longrightarrow> m = n"
  by (metis nat_of_digits_str_of_nat)

lemma str_of_nat_no_minus: "str_of_nat n \<noteq> CHR ''-'' # s"
  using str_of_nat_chars [of "CHR ''-''" n] by auto

lemma str_of_int_inj:
  assumes "str_of_int m = str_of_int n"
  shows "m = n"
proof -
  have neg: "str_of_nat a \<noteq> CHR ''-'' # str_of_nat b" for a b
    by (rule str_of_nat_no_minus)
  consider "m < 0" "n < 0" | "m < 0" "0 \<le> n" | "0 \<le> m" "n < 0" | "0 \<le> m" "0 \<le> n"
    by linarith
  then show ?thesis
  proof cases
    case 1
    with assms have "str_of_nat (nat (- m)) = str_of_nat (nat (- n))"
      by (simp add: str_of_int_def)
    then have "nat (- m) = nat (- n)" by (rule str_of_nat_inj)
    with 1 show ?thesis by simp
  next
    case 2
    with assms neg [of "nat n" "nat (- m)"] show ?thesis by (simp add: str_of_int_def)
  next
    case 3
    with assms neg [of "nat m" "nat (- n)"] show ?thesis by (simp add: str_of_int_def)
  next
    case 4
    with assms have "str_of_nat (nat m) = str_of_nat (nat n)"
      by (simp add: str_of_int_def)
    then have "nat m = nat n" by (rule str_of_nat_inj)
    with 4 show ?thesis by simp
  qed
qed

lemma str_of_int_no_colon: "CHR '':'' \<notin> set (str_of_int n)"
  using str_of_nat_chars [of "CHR '':''"] by (auto simp: str_of_int_def)

lemma key_split:
  assumes "CHR '':'' \<notin> set a" "CHR '':'' \<notin> set b" "p @ CHR '':'' # a = q @ CHR '':'' # b"
  shows "p = q \<and> a = b"
  using assms by (auto simp: append_eq_append_conv2 append_eq_Cons_conv Cons_eq_append_conv)

section \<open>The loop in closed form\<close>

lemma loop_skip:
  "act \<le> s \<Longrightarrow> BuildTable_loop evs act s e acc
     = BuildTable_loop (drop (nat (s - act)) evs) s s e acc"
proof (induction evs arbitrary: act)
  case Nil
  then show ?case by simp
next
  case (Cons child events)
  show ?case
  proof (cases "act < s")
    case True
    then have "nat (s - act) = Suc (nat (s - (act + 1)))" by simp
    with True Cons.IH [of "act + 1"] show ?thesis by simp
  next
    case False
    with Cons.prems have "act = s" by simp
    then show ?thesis by simp
  qed
qed

lemma loop_collect:
  "s \<le> act \<Longrightarrow> BuildTable_loop evs act s e acc
     = (acc @ zip [act..max e (act + 1) - 1] evs,
        if max e (act + 1) - act \<le> int (length evs)
        then Some (max e (act + 1), drop (nat (max e (act + 1) - act)) evs) else None)"
proof (induction evs arbitrary: act acc)
  case Nil
  then show ?case by simp
next
  case (Cons child events)
  show ?case
  proof (cases "e \<le> act + 1")
    case True
    then have m: "max e (act + 1) = act + 1" by simp
    from Cons.prems True show ?thesis unfolding m by (simp add: Let_def)
  next
    case False
    then have m: "max e (act + 1) = e" "max e (act + 1 + 1) = e" by simp_all
    have u: "[act..e - 1] = act # [act + 1..e - 1]"
      using False by (simp add: upto_rec1)
    have n: "nat (e - act) = Suc (nat (e - (act + 1)))" using False by simp
    from Cons.prems False Cons.IH [of "act + 1" "acc @ [(act, child)]"]
    show ?thesis unfolding m u n by (simp add: Let_def)
  qed
qed

section \<open>The two paths of BuildTable\<close>

lemma format_key_Inr: "format_prefix Lit key = Inr p \<Longrightarrow> format_key key row = Inr (key_at p row)"
  by (simp add: format_key_def key_at_def)

lemma format_key_Inl: "format_prefix Lit key = Inl err \<Longrightarrow> format_key key row = Inl err"
  by (simp add: format_key_def)

lemma key_at_inj: "key_at p m = key_at p n \<Longrightarrow> m = n"
  by (simp add: key_at_def str_of_int_inj)

lemma key_at_prefix: "key_at p m = key_at q n \<Longrightarrow> p = q"
  using key_split [of "str_of_int m" "str_of_int n" p q]
  by (simp add: key_at_def str_of_int_no_colon)

lemma BuildTable_format_error:
  "BuildTable f c s e r = Inl err" if "format_prefix Lit (key_of r) = Inl err"
proof -
  have k: "SmartUnicode (REQ_container r) @ '':'' @ REQ_query r = key_of r"
    by (simp add: key_of_def)
  show ?thesis
    unfolding BuildTable_def Let_def k using that by (simp add: format_key_Inl)
qed

lemma BuildTable_miss:
  assumes "format_prefix Lit (key_of r) = Inr p" and "c (key_at p s) = None"
  shows "BuildTable f c s e r =
     (case fresh_query f r of Inl err \<Rightarrow> Inl err
      | Inr all \<Rightarrow> BuildTable_finish (key_of r) c (BuildTable_loop all 0 s e []))"
proof -
  have k: "SmartUnicode (REQ_container r) @ '':'' @ REQ_query r = key_of r"
    by (simp add: key_of_def)
  show ?thesis
    unfolding BuildTable_def Let_def k using assms
    by (simp add: format_key_Inr cache_Get_def fresh_query_def split: sum.splits)
qed

lemma BuildTable_hit:
  assumes "format_prefix Lit (key_of r) = Inr p" and "c (key_at p s) = Some events"
  shows "BuildTable f c s e r =
     BuildTable_finish (key_of r) (c(key_at p s := None)) (BuildTable_loop events s s e [])"
proof -
  have k: "SmartUnicode (REQ_container r) @ '':'' @ REQ_query r = key_of r"
    by (simp add: key_of_def)
  show ?thesis
    unfolding BuildTable_def Let_def k using assms
    by (simp add: format_key_Inr cache_Get_def cache_ExpireObject_def)
qed

lemma loop_hit:
  assumes "0 \<le> s"
  shows "BuildTable_loop (drop (nat s) all) s s e acc
     = (acc @ window_rows all s e,
        if stop_row s e \<le> int (length all)
        then Some (stop_row s e, drop (nat (stop_row s e)) all) else None)"
proof -
  have m: "max e (s + 1) = stop_row s e" using assms by (simp add: stop_row_def)
  have f: "first_row s = s" using assms by (simp add: first_row_def)
  have gt: "s < stop_row s e" using assms by (simp add: stop_row_def)
  have d: "drop (nat (stop_row s e - s)) (drop (nat s) all) = drop (nat (stop_row s e)) all"
    using assms gt by (simp add: nat_diff_distrib)
  have l: "stop_row s e - s \<le> int (length (drop (nat s) all)) \<longleftrightarrow> stop_row s e \<le> int (length all)"
    using assms gt by auto
  show ?thesis
    using loop_collect [of s s "drop (nat s) all" e acc] l
    unfolding m d by (simp add: window_rows_def f)
qed

lemma loop_miss:
  "BuildTable_loop all 0 s e acc
     = (acc @ window_rows all s e,
        if stop_row s e \<le> int (length all)
        then Some (stop_row s e, drop (nat (stop_row s e)) all) else None)"
proof (cases "0 \<le> s")
  case True
  with loop_skip [of 0 s all e acc] loop_hit [of s all e acc] show ?thesis by simp
next
  case False
  then have m: "max e (0 + 1) = stop_row s e" "first_row s = 0" 
    by (simp_all add: stop_row_def first_row_def)
  have p: "0 < stop_row s e" by (simp add: stop_row_def)
  from False loop_collect [of s 0 all e acc] p show ?thesis
    unfolding m by (simp add: window_rows_def m)
qed

section \<open>Calls on a coherent cache\<close>

lemma BuildTable_finish_window:
  assumes "format_prefix Lit key = Inr p"
  shows "BuildTable_finish key (c(key_at p s := None))
           (window_rows all s e,
            if stop_row s e \<le> int (length all)
            then Some (stop_row s e, drop (nat (stop_row s e)) all) else None)
         = Inr (window_table p c all s e)"
  using assms
  by (simp add: BuildTable_finish_def window_table_def format_key_Inr cache_Put_def)

lemma coherent_forD:
  "coherent_for f r c \<Longrightarrow> format_prefix Lit (key_of r) = Inr p \<Longrightarrow> c (key_at p row) = Some events
   \<Longrightarrow> checkpoint f r row events"
  unfolding coherent_for_def using format_key_Inr by blast

lemma coherent_forI:
  assumes "\<And>p row events. format_prefix Lit (key_of r) = Inr p \<Longrightarrow> c (key_at p row) = Some events
             \<Longrightarrow> checkpoint f r row events"
  shows "coherent_for f r c"
  unfolding coherent_for_def
proof (intro allI impI)
  fix row k events
  assume k: "format_key (key_of r) row = Inr k" and c: "c k = Some events"
  then obtain p where p: "format_prefix Lit (key_of r) = Inr p"
    by (cases "format_prefix Lit (key_of r)") (simp_all add: format_key_def)
  with k have "k = key_at p row" by (simp add: format_key_Inr)
  with c p show "checkpoint f r row events" using assms by simp
qed

lemma BuildTable_coherent:
  assumes "coherent_for f r c" and p: "format_prefix Lit (key_of r) = Inr p"
    and all: "fresh_query f r = Inr all"
  shows "BuildTable f c s e r = Inr (window_table p c all s e)"
proof (cases "c (key_at p s)")
  case None
  then have "c(key_at p s := None) = c" by (simp add: fun_upd_idem)
  with BuildTable_finish_window [OF p, of c s all e] None p show ?thesis
    by (simp add: BuildTable_miss all loop_miss)
next
  case (Some events)
  from coherent_forD [OF assms(1) p Some] all
  have "0 \<le> s" "events = drop (nat s) all" by (simp_all add: checkpoint_def)
  with BuildTable_finish_window [OF p, of c s all e] p Some show ?thesis
    by (simp add: BuildTable_hit loop_hit)
qed

lemma BuildTable_store_error:
  assumes "coherent_for f r c" and p: "format_prefix Lit (key_of r) = Inr p"
    and err: "fresh_query f r = Inl err"
  shows "BuildTable f c s e r = Inl err"
proof (cases "c (key_at p s)")
  case None
  with p show ?thesis by (simp add: BuildTable_miss err)
next
  case (Some events)
  from coherent_forD [OF assms(1) p Some] err show ?thesis by (simp add: checkpoint_def)
qed

lemma BuildTable_rows:
  assumes "coherent_for f r c"
  shows "map_sum id rows (BuildTable f c s e r) = expected_rows f r s e"
proof (cases "format_prefix Lit (key_of r)")
  case (Inl err)
  then show ?thesis by (simp add: BuildTable_format_error expected_rows_def)
next
  case (Inr p)
  show ?thesis
  proof (cases "fresh_query f r")
    case (Inl err)
    with Inr assms show ?thesis by (simp add: BuildTable_store_error expected_rows_def)
  next
    case all: (Inr all)
    with Inr assms show ?thesis
      by (simp add: BuildTable_coherent expected_rows_def window_table_def)
  qed
qed

lemma coherent_for_empty: "coherent_for f r Map.empty"
  by (simp add: coherent_for_def)

lemma coherent_for_expire: "coherent_for f r c \<Longrightarrow> coherent_for f r (expire K c)"
  by (auto simp: coherent_for_def expire_def restrict_map_def split: if_splits)

lemma coherent_for_BuildTable:
  assumes coh: "coherent_for f r c" and t: "BuildTable f c s e r = Inr t"
  shows "coherent_for f r (content_cache t)"
proof (rule coherent_forI)
  fix p row events
  assume p: "format_prefix Lit (key_of r) = Inr p"
    and c: "content_cache t (key_at p row) = Some events"
  from coh p t obtain all where all: "fresh_query f r = Inr all"
    by (cases "fresh_query f r") (simp_all add: BuildTable_store_error)
  from BuildTable_coherent [OF coh p all, of s e] t
  have t': "t = window_table p c all s e" by simp
  have pos: "0 < stop_row s e" by (simp add: stop_row_def)
  show "checkpoint f r row events"
  proof (cases "stop_row s e \<le> int (length all) \<and> row = stop_row s e")
    case True
    with c t' all pos show ?thesis by (simp add: window_table_def checkpoint_def)
  next
    case False
    with c t' have "c (key_at p row) = Some events"
      by (auto simp: window_table_def split: if_splits dest: key_at_inj)
    with coh p show ?thesis by (rule coherent_forD)
  qed
qed

lemma BuildTable_frame:
  assumes "BuildTable f c s e r = Inr t"
  shows "\<exists>p. format_prefix Lit (key_of r) = Inr p
           \<and> (\<forall>k. (\<forall>row. k \<noteq> key_at p row) \<longrightarrow> content_cache t k = c k)"
proof (cases "format_prefix Lit (key_of r)")
  case (Inl err)
  with assms show ?thesis by (simp add: BuildTable_format_error)
next
  case (Inr p)
  have fin: "content_cache t' k = c' k"
    if "BuildTable_finish (key_of r) c' res = Inr t'" "\<forall>row. k \<noteq> key_at p row" for c' res t' k
    using that Inr
    by (cases res) (auto simp: BuildTable_finish_def format_key_Inr cache_Put_def
        split: option.splits)
  have "content_cache t k = c k" if k: "\<forall>row. k \<noteq> key_at p row" for k
  proof (cases "c (key_at p s)")
    case None
    with assms Inr obtain all where
        "BuildTable_finish (key_of r) c (BuildTable_loop all 0 s e []) = Inr t"
      by (cases "fresh_query f r") (simp_all add: BuildTable_miss)
    then show ?thesis using k by (rule fin)
  next
    case (Some events)
    with assms Inr have
        "BuildTable_finish (key_of r) (c(key_at p s := None)) (BuildTable_loop events s s e []) = Inr t"
      by (simp add: BuildTable_hit)
    then have "content_cache t k = (c(key_at p s := None)) k" using k by (rule fin)
    with k show ?thesis by simp
  qed
  with Inr show ?thesis by blast
qed

lemma coherent_for_cong:
  assumes "format_prefix Lit (key_of r') = format_prefix Lit (key_of r)"
    and "fresh_query f r' = fresh_query f r"
  shows "coherent_for f r' c = coherent_for f r c"
  using assms by (simp add: coherent_for_def format_key_def checkpoint_def)

lemma coherent_for_other:
  assumes coh: "coherent_for f r c" and t: "BuildTable f c s e r' = Inr t"
    and ne: "format_prefix Lit (key_of r') \<noteq> format_prefix Lit (key_of r)"
  shows "coherent_for f r (content_cache t)"
proof (rule coherent_forI)
  fix p row events
  assume p: "format_prefix Lit (key_of r) = Inr p"
    and c: "content_cache t (key_at p row) = Some events"
  from BuildTable_frame [OF t] obtain p' where p': "format_prefix Lit (key_of r') = Inr p'"
    and frame: "\<And>k. (\<forall>row. k \<noteq> key_at p' row) \<Longrightarrow> content_cache t k = c k"
    by blast
  from ne p p' have "p' \<noteq> p" by auto
  then have "key_at p row \<noteq> key_at p' row'" for row'
    using key_at_prefix by blast
  then have "content_cache t (key_at p row) = c (key_at p row)" by (simp add: frame)
  with c coh p show "checkpoint f r row events" by (simp add: coherent_forD)
qed

lemma reachable_coherent: "reachable f r c \<Longrightarrow> coherent_for f r c"
proof (induction rule: reachable.induct)
  case init
  show ?case by (simp add: init_content_cache_def coherent_for_empty)
next
  case (expired c K)
  then show ?case by (simp add: coherent_for_expire)
next
  case (call c s e r' t)
  show ?case
  proof (cases "format_prefix Lit (key_of r') = format_prefix Lit (key_of r)")
    case True
    with call.hyps(3) have q: "fresh_query f r' = fresh_query f r" by simp
    from call.IH have "coherent_for f r' c" by (simp add: coherent_for_cong [OF True q])
    then have "coherent_for f r' (content_cache t)"
      using call.hyps(2) by (rule coherent_for_BuildTable)
    then show ?thesis by (simp add: coherent_for_cong [OF True q])
  next
    case False
    with call.IH call.hyps(2) show ?thesis by (rule coherent_for_other)
  qed
qed

section \<open>Consecutive windows\<close>

lemma zip_take_left: "zip xs (take (length xs) ys) = zip xs ys"
proof (induction xs arbitrary: ys)
  case Nil
  show ?case by simp
next
  case (Cons a xs)
  then show ?case by (cases ys) simp_all
qed

lemma zip_upto_append:
  assumes "0 \<le> a" "a \<le> b" "b \<le> c"
  shows "zip [a..b - 1] (drop (nat a) xs) @ zip [b..c - 1] (drop (nat b) xs)
         = zip [a..c - 1] (drop (nat a) xs)"
proof (cases "b = c")
  case True
  then show ?thesis by simp
next
  case False
  with assms have "[a..c - 1] = [a..b - 1] @ [b..c - 1]"
    by (intro upto_split1) simp_all
  moreover have "drop (length [a..b - 1]) (drop (nat a) xs) = drop (nat b) xs"
    using assms by (simp add: nat_diff_distrib add.commute)
  ultimately show ?thesis
    by (simp only: zip_append1 zip_take_left)
qed

lemma window_rows_window: "0 \<le> s \<Longrightarrow> s < e \<Longrightarrow> window_rows all s e = zip [s..e - 1] (drop (nat s) all)"
  by (simp add: window_rows_def first_row_def stop_row_def)

lemma stop_row_window: "0 \<le> s \<Longrightarrow> s < e \<Longrightarrow> stop_row s e = e"
  by (simp add: stop_row_def)

lemma FetchWindows_rows:
  assumes "format_prefix Lit (key_of r) = Inr p" and "fresh_query f r = Inr all"
  shows "coherent_for f r c \<Longrightarrow> 0 \<le> s \<Longrightarrow> sorted_wrt (<) (s # map snd ws) \<Longrightarrow>
     FetchWindows f c r s ws = Inr (zip [s..last (s # map snd ws) - 1] (drop (nat s) all))"
proof (induction ws arbitrary: c s)
  case Nil
  then show ?case by simp
next
  case (Cons w ws)
  obtain K e where w: "w = (K, e)" by (cases w)
  from Cons.prems w have se: "s < e" and sorted: "sorted_wrt (<) (e # map snd ws)" by auto
  have coh: "coherent_for f r (expire K c)" using Cons.prems(1) by (rule coherent_for_expire)
  have bt: "BuildTable f (expire K c) s e r = Inr (window_table p (expire K c) all s e)"
    using coh assms by (rule BuildTable_coherent)
  then have "coherent_for f r (content_cache (window_table p (expire K c) all s e))"
    by (rule coherent_for_BuildTable [OF coh])
  with sorted Cons.prems(2) se
  have rest: "FetchWindows f (content_cache (window_table p (expire K c) all s e)) r e ws
       = Inr (zip [e..last (e # map snd ws) - 1] (drop (nat e) all))"
    by (intro Cons.IH) simp_all
  have le: "e \<le> last (e # map snd ws)"
  proof (cases "ws = []")
    case True
    then show ?thesis by simp
  next
    case False
    then have "last (map snd ws) \<in> set (map snd ws)" by (intro last_in_set) simp
    with sorted False show ?thesis by auto
  qed
  have rows: "rows (window_table p (expire K c) all s e) = zip [s..e - 1] (drop (nat s) all)"
    using Cons.prems(2) se by (simp add: window_table_def window_rows_window)
  have "last (s # map snd (w # ws)) = last (e # map snd ws)" by (simp add: w)
  with zip_upto_append [of s e "last (e # map snd ws)" all] le se Cons.prems(2) rows
  show ?case by (simp add: w bt rest)
qed

section \<open>Exceptions\<close>

lemma format_prefix_error: "format_prefix st s = Inl err \<Longrightarrow> err = FormatError"
  by (induction s arbitrary: st err) (auto split: option.splits sum.splits if_splits)

lemma format_key_error: "format_key key row = Inl err \<Longrightarrow> err = FormatError"
  by (auto simp: format_key_def split: sum.splits dest: format_prefix_error)

lemma BuildTable_finish_error:
  "format_prefix Lit key = Inr p \<Longrightarrow> BuildTable_finish key c res \<noteq> Inl err"
  by (cases res) (auto simp: BuildTable_finish_def format_key_Inr split: option.splits)

lemma fresh_query_error: "fresh_query f r = Inl err \<Longrightarrow> err \<noteq> KeyError"
  by (auto simp: fresh_query_def FACTORY_Open_def Query_def split: sum.splits)

lemma BuildTable_no_KeyError: "BuildTable f c s e r \<noteq> Inl KeyError"
proof (cases "format_prefix Lit (key_of r)")
  case (Inl err)
  then have "err = FormatError" by (rule format_prefix_error)
  with Inl show ?thesis by (simp add: BuildTable_format_error)
next
  case (Inr p)
  show ?thesis
  proof (cases "c (key_at p s)")
    case None
    with Inr show ?thesis
      by (auto simp: BuildTable_miss BuildTable_finish_error split: sum.splits
          dest: fresh_query_error)
  next
    case (Some events)
    with Inr show ?thesis by (simp add: BuildTable_hit BuildTable_finish_error)
  qed
qed

lemma py_int_error: "py_int s = Inl err \<Longrightarrow> err = ValueError"
  by (auto simp: py_int_def Let_def split: if_splits)

section \<open>Evaluating the examples\<close>

lemma digit_char_eval:
  "digit_char 0 = CHR ''0''" "digit_char 1 = CHR ''1''" "digit_char 2 = CHR ''2''"
  "digit_char 3 = CHR ''3''" "digit_char 4 = CHR ''4''" "digit_char 5 = CHR ''5''"
  "digit_char 6 = CHR ''6''" "digit_char 7 = CHR ''7''" "digit_char 8 = CHR ''8''"
  "digit_char 9 = CHR ''9''" "digit_char (Suc 0) = CHR ''1''"
  by code_simp+

lemmas eval_simps = format_key_def key_of_def SmartUnicode_def step_flags_def step_dot_def
  step_len_def step_conv_def is_digit_def str_of_int_def str_of_nat.simps digit_char_eval
  fresh_query_def FACTORY_Open_def Query_def store_of_def example_store_def example_request_def
  colliding_request_def uneven_store_def guarded_store_def other_token_request_def

lemmas bt_eval = BuildTable_def Let_def eval_simps cache_Get_def init_content_cache_def
  BuildTable_finish_def cache_Put_def cache_ExpireObject_def timeline_def upt_rec hasMore_def

lemma example_prefix: "format_prefix Lit (key_of example_request) = Inr ''aff4:/C.1/t:x:y''"
  by (simp add: eval_simps)

lemma colliding_prefix: "format_prefix Lit (key_of colliding_request) = Inr ''aff4:/C.1/t:x:y''"
  by (simp add: eval_simps)

lemma example_query: "fresh_query (example_store n) example_request = Inr (timeline 0 n)"
  by (simp add: eval_simps)

lemma colliding_query: "fresh_query (example_store n) colliding_request = Inr (timeline 100 n)"
  by (simp add: eval_simps)

lemma length_timeline: "length (timeline b n) = n"
  by (simp add: timeline_def)

lemma example_key: "format_key (key_of example_request) 10 = Inr ''aff4:/C.1/t:x:y:10''"
  by (simp add: eval_simps)

lemma example_warm:
  "reachable (example_store 15) example_request
     [''aff4:/C.1/t:x:y:10'' \<mapsto> drop 10 (timeline 0 15)]"
proof -
  have "coherent_for (example_store 15) example_request init_content_cache"
    by (simp add: init_content_cache_def coherent_for_empty)
  then have bt: "BuildTable (example_store 15) init_content_cache 0 10 example_request
      = Inr (window_table ''aff4:/C.1/t:x:y'' init_content_cache (timeline 0 15) 0 10)"
    using example_prefix example_query by (rule BuildTable_coherent)
  have "reachable (example_store 15) example_request
      (content_cache (window_table ''aff4:/C.1/t:x:y'' init_content_cache (timeline 0 15) 0 10))"
    by (rule reachable.call [OF reachable.init bt]) simp
  moreover have "content_cache (window_table ''aff4:/C.1/t:x:y'' init_content_cache (timeline 0 15) 0 10)
      = [''aff4:/C.1/t:x:y:10'' \<mapsto> drop 10 (timeline 0 15)]"
    by (simp add: window_table_def stop_row_def key_at_def length_timeline init_content_cache_def
        str_of_int_def str_of_nat.simps digit_char_eval)
  ultimately show ?thesis by simp
qed

section \<open>Properties of the message renderer\<close>

lemma escape_plain: "set s \<inter> set [CHR ''&'', CHR ''<'', CHR ''>'', CHR 0x22, CHR 0x27] = {} \<Longrightarrow> escape s = s"
  by (induction s) (auto simp: escape_def escape_char_def)

lemma render_default:
  "render 0 default_template this_type = [CHR 0x0A] @ ''Event of type '' @ escape this_type @ [CHR 0x0A]"
  by (simp add: default_template_def type_variable_def)

text \<open>
  Claim C7, as the code has it. The message of an event is a total function of its type.
  The type \<open>file.mtime\<close> (modify) gives the message "File modified", \<open>file.atime\<close>
  (access) gives "File access" and \<open>file.ctime\<close> (metadata change) gives "File metadata
  changed", each inside its markup and followed by a full stop. Every other type gives
  the default message: a line break, "Event of type " followed by the type with the HTML
  special characters escaped, and a line break; the type appears as it is when it has
  none of these characters.
\<close>

theorem EventMessageRenderer_total:
  "EventMessageRenderer_Layout (p\<lparr>ev_type := ''file.mtime''\<rparr>)
      = ''<div><pre class='inline'>M--</pre> '' @ ''File modified'' @ ''.</div>''
   \<and> EventMessageRenderer_Layout (p\<lparr>ev_type := ''file.atime''\<rparr>)
      = ''<div><pre class='inline'>-A-</pre> '' @ ''File access'' @ ''.</div>''
   \<and> EventMessageRenderer_Layout (p\<lparr>ev_type := ''file.ctime''\<rparr>)
      = ''<div><pre class='inline'>--C</pre> '' @ ''File metadata changed'' @ ''.</div>''
   \<and> (ev_type q \<notin> {''file.mtime'', ''file.atime'', ''file.ctime''} \<longrightarrow>
        EventMessageRenderer_Layout q
          = [CHR 0x0A] @ ''Event of type '' @ escape (ev_type q) @ [CHR 0x0A])
   \<and> (ev_type q \<notin> {''file.mtime'', ''file.atime'', ''file.ctime''}
        \<and> set (ev_type q) \<inter> set [CHR ''&'', CHR ''<'', CHR ''>'', CHR 0x22, CHR 0x27] = {} \<longrightarrow>
        EventMessageRenderer_Layout q
          = [CHR 0x0A] @ ''Event of type '' @ ev_type q @ [CHR 0x0A])"
proof -
  have known:
    "EventMessageRenderer_Layout (p\<lparr>ev_type := ''file.mtime''\<rparr>)
      = ''<div><pre class='inline'>M--</pre> '' @ ''File modified'' @ ''.</div>''"
    "EventMessageRenderer_Layout (p\<lparr>ev_type := ''file.atime''\<rparr>)
      = ''<div><pre class='inline'>-A-</pre> '' @ ''File access'' @ ''.</div>''"
    "EventMessageRenderer_Layout (p\<lparr>ev_type := ''file.ctime''\<rparr>)
      = ''<div><pre class='inline'>--C</pre> '' @ ''File metadata changed'' @ ''.</div>''"
    by (simp_all add: EventMessageRenderer_Layout_def dict_get_def event_template_dispatcher_def
        type_variable_def)
  have other: "EventMessageRenderer_Layout q
          = [CHR 0x0A] @ ''Event of type '' @ escape (ev_type q) @ [CHR 0x0A]"
    if "ev_type q \<notin> {''file.mtime'', ''file.atime'', ''file.ctime''}"
  proof -
    from that have "dict_get event_template_dispatcher (ev_type q) default_template
        = default_template"
      by (simp add: dict_get_def event_template_dispatcher_def)
    then show ?thesis
      by (simp only: EventMessageRenderer_Layout_def Let_def render_default)
  qed
  from known other escape_plain [of "ev_type q"] show ?thesis by simp
qed

theorem EventMessageRenderer_total_witness:
  "ev_type \<lparr>ev_id = 7, timestamp = 1300000000, subject = ''aff4:/C.1/fs/os/etc/passwd'',
             ev_type = ''registry.key''\<rparr> \<notin> {''file.mtime'', ''file.atime'', ''file.ctime''}
   \<and> set ''registry.key'' \<inter> set [CHR ''&'', CHR ''<'', CHR ''>'', CHR 0x22, CHR 0x27] = {}
   \<and> EventMessageRenderer_Layout
        \<lparr>ev_id = 7, timestamp = 1300000000, subject = ''aff4:/C.1/fs/os/etc/passwd'',
         ev_type = ''registry.key''\<rparr>
      = [CHR 0x0A] @ ''Event of type registry.key'' @ [CHR 0x0A]"
  using EventMessageRenderer_total
    [where q = "\<lparr>ev_id = 7, timestamp = 1300000000, subject = ''aff4:/C.1/fs/os/etc/passwd'',
             ev_type = ''registry.key''\<rparr>"
       and p = "\<lparr>ev_id = 7, timestamp = 1300000000, subject = ''aff4:/C.1/fs/os/etc/passwd'',
             ev_type = ''registry.key''\<rparr>"]
  by (simp add: escape_def escape_char_def)

text \<open>
  The claim as stated fails on three counts. The types the code knows are \<open>file.mtime\<close>,
  \<open>file.atime\<close> and \<open>file.ctime\<close>: the type \<open>modify\<close> gets the default message. The
  message of \<open>file.mtime\<close> is markup around "File modified." and not the text
  "File modified". And the default message does not carry the raw type where the type has
  a character that HTML escapes.
\<close>

theorem EventMessageRenderer_counterexample:
  "EventMessageRenderer_Layout
      \<lparr>ev_id = 7, timestamp = 1300000000, subject = ''aff4:/C.1/fs/os/etc/passwd'',
       ev_type = ''modify''\<rparr>
     = [CHR 0x0A] @ ''Event of type modify'' @ [CHR 0x0A]
   \<and> EventMessageRenderer_Layout
      \<lparr>ev_id = 7, timestamp = 1300000000, subject = ''aff4:/C.1/fs/os/etc/passwd'',
       ev_type = ''file.mtime''\<rparr>
     = ''<div><pre class='inline'>M--</pre> File modified.</div>''
   \<and> EventMessageRenderer_Layout
      \<lparr>ev_id = 7, timestamp = 1300000000, subject = ''aff4:/C.1/fs/os/etc/passwd'',
       ev_type = ''file.mtime''\<rparr>
     \<noteq> ''File modified''
   \<and> EventMessageRenderer_Layout
      \<lparr>ev_id = 7, timestamp = 1300000000, subject = ''aff4:/C.1/fs/os/etc/passwd'',
       ev_type = ''a<b''\<rparr>
     = [CHR 0x0A] @ ''Event of type a&lt;b'' @ [CHR 0x0A]"
  by (simp add: EventMessageRenderer_Layout_def dict_get_def event_template_dispatcher_def
      default_template_def type_variable_def escape_def escape_char_def)

section \<open>Consecutive windows against a single call\<close>

text \<open>
  On reachable caches: fetching the windows \<open>[0, e1)\<close>, \<open>[e1, e2)\<close>, ... one after the
  other and concatenating the rows gives the rows of a single call for the window from
  \<open>0\<close> to the last end row. This holds whatever expires from the cache between two
  calls, and exceptions included: where the key cannot be formatted or the store raises,
  both sides raise the same exception.
\<close>

theorem FetchWindows_single_call:
  assumes "reachable f r c" and "reachable f r c'" and "ws \<noteq> []"
    and "sorted_wrt (<) (0 # map snd ws)"
  shows "FetchWindows f c r 0 ws = map_sum id rows (BuildTable f c' 0 (snd (last ws)) r)"
proof -
  obtain K e ws' where ws: "ws = (K, e) # ws'" using assms(3) by (cases ws) auto
  have coh: "coherent_for f r c" "coherent_for f r c'"
    using assms(1,2) by (simp_all add: reachable_coherent)
  have N: "last (0 # map snd ws) = snd (last ws)" "0 < snd (last ws)"
    using assms(3,4) by (auto simp: last_map)
  show ?thesis
  proof (cases "format_prefix Lit (key_of r)")
    case (Inl err)
    then show ?thesis by (simp add: ws BuildTable_format_error)
  next
    case (Inr p)
    show ?thesis
    proof (cases "fresh_query f r")
      case (Inl err)
      with Inr coh coherent_for_expire [OF coh(1), of K] show ?thesis
        by (simp add: ws BuildTable_store_error)
    next
      case all: (Inr all)
      from FetchWindows_rows [OF Inr all coh(1) _ assms(4)] N
        BuildTable_coherent [OF coh(2) Inr all, of 0 "snd (last ws)"]
      show ?thesis by (simp add: window_table_def window_rows_window)
    qed
  qed
qed

theorem FetchWindows_single_call_witness:
  "reachable (example_store 15) example_request init_content_cache
   \<and> [({}, 10), (UNIV, 20)] \<noteq> ([] :: (string set \<times> int) list)
   \<and> sorted_wrt (<) (0 # map snd [({} :: string set, 10 :: int), (UNIV, 20)])
   \<and> FetchWindows (example_store 15) init_content_cache example_request 0 [({}, 10), (UNIV, 20)]
       = map_sum id rows (BuildTable (example_store 15) init_content_cache 0 20 example_request)
   \<and> FetchWindows (example_store 15) init_content_cache example_request 0 [({}, 10), (UNIV, 20)]
       = Inr (zip [0..19] (timeline 0 15))"
proof -
  have r: "reachable (example_store 15) example_request init_content_cache"
    by (rule reachable.init)
  have s: "sorted_wrt (<) (0 # map snd [({} :: string set, 10 :: int), (UNIV, 20)])" by simp
  have "map_sum id rows (BuildTable (example_store 15) init_content_cache 0 20 example_request)
      = Inr (zip [0..20 - 1] (drop (nat 0) (timeline 0 15)))"
    using reachable_coherent [OF r]
    by (simp only: BuildTable_rows expected_rows_def example_prefix example_query
        window_rows_window sum.case)
  with FetchWindows_single_call [OF r r _ s] r s show ?thesis by simp
qed

text \<open>
  Claim C1 says that consecutive windows give the rows of a single call for every
  container and query. The code breaks this on a cache that holds an entry of another
  request with the same key text. The container \<open>aff4:/C.1/t\<close> has 3 events, the
  container \<open>aff4:/C.1/t:x\<close> has 6. A call for the second container with the query
  \<open>y\<close> and the window \<open>[0, 4)\<close> leaves its iterator under the key
  \<open>aff4:/C.1/t:x:y:4\<close>. The windows \<open>[0, 2)\<close>, \<open>[2, 4)\<close>, \<open>[4, 6)\<close> for the first
  container with the query \<open>x:y\<close> then return the rows 0 to 2 and, from that entry, the
  rows 4 and 5 with the events 104 and 105 of the other container; the single call for
  \<open>[0, 6)\<close> on the same cache returns the rows 0 to 2 only.
\<close>

theorem windows_after_collision:
  "BuildTable (uneven_store 3 6) init_content_cache 0 4 colliding_request
     = Inr \<lparr>rows = [(0, timeline 100 6 ! 0), (1, timeline 100 6 ! 1), (2, timeline 100 6 ! 2),
                    (3, timeline 100 6 ! 3)],
            table_size = Some 5,
            content_cache = [''aff4:/C.1/t:x:y:4'' \<mapsto> drop 4 (timeline 100 6)]\<rparr>
   \<and> FetchWindows (uneven_store 3 6) [''aff4:/C.1/t:x:y:4'' \<mapsto> drop 4 (timeline 100 6)]
        example_request 0 [({}, 2), ({}, 4), ({}, 6)]
     = Inr [(0, timeline 0 3 ! 0), (1, timeline 0 3 ! 1), (2, timeline 0 3 ! 2),
            (4, timeline 100 6 ! 4), (5, timeline 100 6 ! 5)]
   \<and> BuildTable (uneven_store 3 6) [''aff4:/C.1/t:x:y:4'' \<mapsto> drop 4 (timeline 100 6)] 0 6
        example_request
     = Inr \<lparr>rows = [(0, timeline 0 3 ! 0), (1, timeline 0 3 ! 1), (2, timeline 0 3 ! 2)],
            table_size = None,
            content_cache = [''aff4:/C.1/t:x:y:4'' \<mapsto> drop 4 (timeline 100 6)]\<rparr>
   \<and> ev_id (timeline 100 6 ! 4) = 104 \<and> ev_id (timeline 100 6 ! 5) = 105"
  by (simp add: bt_eval expire_def)

section \<open>Cache transparency\<close>

text \<open>
  On reachable caches: for every window, the rows of a call are the same whether the call
  finds the saved iterator under its key (cache hit) or starts from the empty cache and
  skips from row \<open>0\<close> (cache miss); clearing any part of the cache before the call does
  not change the rows either.
\<close>

theorem BuildTable_cache_transparent:
  assumes "reachable f r c"
  shows "map_sum id rows (BuildTable f c s e r) = map_sum id rows (BuildTable f init_content_cache s e r)
       \<and> map_sum id rows (BuildTable f (expire K c) s e r) = map_sum id rows (BuildTable f c s e r)"
  using assms reachable.init [of f r] reachable.expired [OF assms, of K]
  by (simp add: BuildTable_rows reachable_coherent)

theorem BuildTable_cache_transparent_witness:
  "reachable (example_store 15) example_request [''aff4:/C.1/t:x:y:10'' \<mapsto> drop 10 (timeline 0 15)]
   \<and> cache_Get [''aff4:/C.1/t:x:y:10'' \<mapsto> drop 10 (timeline 0 15)] ''aff4:/C.1/t:x:y:10''
       = Inr (drop 10 (timeline 0 15))
   \<and> format_key (key_of example_request) 10 = Inr ''aff4:/C.1/t:x:y:10''
   \<and> map_sum id rows
        (BuildTable (example_store 15) [''aff4:/C.1/t:x:y:10'' \<mapsto> drop 10 (timeline 0 15)] 10 20
           example_request)
       = map_sum id rows (BuildTable (example_store 15) init_content_cache 10 20 example_request)"
  using BuildTable_cache_transparent [OF example_warm, of 10 20] example_warm example_key
  by (simp add: cache_Get_def)

text \<open>
  Claim C2 says that a cache hit and a cache miss return the same rows for every
  container, query and window. The code breaks this where the entry under the key was
  saved for another request. With 4 events in each container, a call for the container
  \<open>aff4:/C.1/t\<close>, the query \<open>x:y\<close> and the window \<open>[0, 2)\<close> leaves its iterator under
  \<open>aff4:/C.1/t:x:y:2\<close>. The call for the container \<open>aff4:/C.1/t:x\<close>, the query \<open>y\<close>
  and the window \<open>[2, 4)\<close> finds it and returns the events 2 and 3 of the first
  container; on the empty cache the same call returns the events 102 and 103. The key
  leaves the token out as well: on a store that answers the token \<open>tok\<close> only, the same
  container and query under the token \<open>bob\<close> gets the rows 2 and 3 from the saved
  iterator and \<open>AccessError\<close> from the empty cache.
\<close>

theorem cache_hit_after_collision:
  "BuildTable (example_store 4) init_content_cache 0 2 example_request
     = Inr \<lparr>rows = [(0, timeline 0 4 ! 0), (1, timeline 0 4 ! 1)], table_size = Some 3,
            content_cache = [''aff4:/C.1/t:x:y:2'' \<mapsto> drop 2 (timeline 0 4)]\<rparr>
   \<and> BuildTable (example_store 4) [''aff4:/C.1/t:x:y:2'' \<mapsto> drop 2 (timeline 0 4)] 2 4
        colliding_request
     = Inr \<lparr>rows = [(2, timeline 0 4 ! 2), (3, timeline 0 4 ! 3)], table_size = Some 5,
            content_cache = [''aff4:/C.1/t:x:y:4'' \<mapsto> []]\<rparr>
   \<and> BuildTable (example_store 4) init_content_cache 2 4 colliding_request
     = Inr \<lparr>rows = [(2, timeline 100 4 ! 2), (3, timeline 100 4 ! 3)], table_size = Some 5,
            content_cache = [''aff4:/C.1/t:x:y:4'' \<mapsto> []]\<rparr>
   \<and> ev_id (timeline 0 4 ! 2) = 2 \<and> ev_id (timeline 100 4 ! 2) = 102
   \<and> BuildTable (guarded_store 4) init_content_cache 0 2 example_request
     = Inr \<lparr>rows = [(0, timeline 0 4 ! 0), (1, timeline 0 4 ! 1)], table_size = Some 3,
            content_cache = [''aff4:/C.1/t:x:y:2'' \<mapsto> drop 2 (timeline 0 4)]\<rparr>
   \<and> BuildTable (guarded_store 4) [''aff4:/C.1/t:x:y:2'' \<mapsto> drop 2 (timeline 0 4)] 2 4
        other_token_request
     = Inr \<lparr>rows = [(2, timeline 0 4 ! 2), (3, timeline 0 4 ! 3)], table_size = Some 5,
            content_cache = [''aff4:/C.1/t:x:y:4'' \<mapsto> []]\<rparr>
   \<and> BuildTable (guarded_store 4) init_content_cache 2 4 other_token_request
     = Inl (StoreError AccessError)"
  by (simp add: bt_eval)

section \<open>The signal for more rows\<close>

text \<open>
  On reachable caches, for a window \<open>0 \<le> start_row < end_row\<close> of a query with the
  events \<open>all\<close>: a call returns the rows of the window. When events remain beyond
  \<open>end_row\<close>, the call sets the size (more rows) and saves the iterator, advanced to
  \<open>end_row\<close>, under the key of \<open>end_row\<close>. When the query has fewer than \<open>end_row\<close>
  events, the call sets no size and puts nothing into the cache: all it does to the cache
  is to remove the entry it consumed. With 15 events, the window \<open>[0, 10)\<close> signals more
  rows and the window \<open>[10, 20)\<close> does not and has 5 rows. Nothing is said here of a
  query with exactly \<open>end_row\<close> events.
\<close>

theorem BuildTable_hasMore:
  assumes "reachable f r c" and "format_prefix Lit (key_of r) = Inr p"
    and "fresh_query f r = Inr all" and "0 \<le> s" and "s < e"
  shows "\<exists>t. BuildTable f c s e r = Inr t \<and> rows t = zip [s..e - 1] (drop (nat s) all)
     \<and> (e < int (length all) \<longrightarrow>
          hasMore t \<and> content_cache t (key_at p e) = Some (drop (nat e) all))
     \<and> (int (length all) < e \<longrightarrow>
          \<not> hasMore t \<and> content_cache t = cache_ExpireObject c (key_at p s))
     \<and> (length all = 15 \<and> s = 0 \<and> e = 10 \<longrightarrow> hasMore t)
     \<and> (length all = 15 \<and> s = 10 \<and> e = 20 \<longrightarrow> \<not> hasMore t \<and> length (rows t) = 5)"
proof -
  have "coherent_for f r c" using assms(1) by (rule reachable_coherent)
  then have "BuildTable f c s e r = Inr (window_table p c all s e)"
    using assms(2,3) by (rule BuildTable_coherent)
  moreover have "rows (window_table p c all s e) = zip [s..e - 1] (drop (nat s) all)"
    using assms(4,5) by (simp add: window_table_def window_rows_window)
  moreover have "e < int (length all) \<longrightarrow>
          hasMore (window_table p c all s e)
          \<and> content_cache (window_table p c all s e) (key_at p e) = Some (drop (nat e) all)"
    using assms(4,5) by (simp add: window_table_def stop_row_window hasMore_def)
  moreover have "int (length all) < e \<longrightarrow>
          \<not> hasMore (window_table p c all s e)
          \<and> content_cache (window_table p c all s e) = cache_ExpireObject c (key_at p s)"
    using assms(4,5) by (simp add: window_table_def stop_row_window hasMore_def cache_ExpireObject_def)
  moreover have "length all = 15 \<and> s = 0 \<and> e = 10 \<longrightarrow> hasMore (window_table p c all s e)"
    by (simp add: window_table_def stop_row_def hasMore_def)
  moreover have "length all = 15 \<and> s = 10 \<and> e = 20 \<longrightarrow>
      \<not> hasMore (window_table p c all s e) \<and> length (rows (window_table p c all s e)) = 5"
    by (simp add: window_table_def stop_row_def hasMore_def window_rows_def first_row_def)
  ultimately show ?thesis by blast
qed

theorem BuildTable_hasMore_witness:
  "reachable (example_store 15) example_request [''aff4:/C.1/t:x:y:10'' \<mapsto> drop 10 (timeline 0 15)]
   \<and> format_prefix Lit (key_of example_request) = Inr ''aff4:/C.1/t:x:y''
   \<and> fresh_query (example_store 15) example_request = Inr (timeline 0 15)
   \<and> (0 :: int) \<le> 10 \<and> (10 :: int) < 20
   \<and> (\<exists>t. BuildTable (example_store 15) [''aff4:/C.1/t:x:y:10'' \<mapsto> drop 10 (timeline 0 15)] 10 20
              example_request = Inr t
           \<and> \<not> hasMore t \<and> length (rows t) = 5 \<and> content_cache t = Map.empty)"
proof -
  have le: "(0 :: int) \<le> 10" and lt: "(10 :: int) < 20" by simp_all
  from BuildTable_hasMore [OF example_warm example_prefix example_query le lt]
  obtain t where
    "BuildTable (example_store 15) [''aff4:/C.1/t:x:y:10'' \<mapsto> drop 10 (timeline 0 15)] 10 20
        example_request = Inr t"
    "\<not> hasMore t" "length (rows t) = 5"
    "content_cache t = cache_ExpireObject [''aff4:/C.1/t:x:y:10'' \<mapsto> drop 10 (timeline 0 15)]
        (key_at ''aff4:/C.1/t:x:y'' 10)"
    by (auto simp: length_timeline)
  moreover have "key_at ''aff4:/C.1/t:x:y'' 10 = ''aff4:/C.1/t:x:y:10''"
    by (simp add: key_at_def str_of_int_def str_of_nat.simps digit_char_eval)
  ultimately show ?thesis
    using example_warm example_prefix example_query by (simp add: cache_ExpireObject_def)
qed

text \<open>
  Claim C3 says that a call whose iterator is exhausted exactly at \<open>end_row\<close> signals
  no more rows and caches nothing. The code tests \<open>act_row >= end_row\<close> right after
  adding a row, under the comment "Tell the table there are more rows", without knowing
  whether the iterator has any: with exactly two events and the window \<open>[0, 2)\<close> the
  call sets the size to 3 and puts the exhausted iterator under the key of row 2; the
  window \<open>[2, 4)\<close> that follows has no rows.
\<close>

theorem hasMore_at_exact_end:
  "BuildTable (example_store 2) init_content_cache 0 2 example_request
     = Inr \<lparr>rows = [(0, timeline 0 2 ! 0), (1, timeline 0 2 ! 1)], table_size = Some 3,
            content_cache = [''aff4:/C.1/t:x:y:2'' \<mapsto> []]\<rparr>
   \<and> hasMore \<lparr>rows = [(0, timeline 0 2 ! 0), (1, timeline 0 2 ! 1)], table_size = Some 3,
            content_cache = [''aff4:/C.1/t:x:y:2'' \<mapsto> []]\<rparr>
   \<and> fresh_query (example_store 2) example_request = Inr (timeline 0 2)
   \<and> length (timeline 0 2) = 2
   \<and> BuildTable (example_store 2) [''aff4:/C.1/t:x:y:2'' \<mapsto> []] 2 4 example_request
     = Inr \<lparr>rows = [], table_size = None, content_cache = Map.empty\<rparr>"
  by (simp add: bt_eval)

section \<open>Keys that collide\<close>

text \<open>
  Claim C4 says that every entry of the cache, under the key of a container, a query
  and an offset, is the iterator of a fresh query of that container and query at that
  offset. The key is the text \<open>container:query:offset\<close>, so two requests whose
  containers and queries differ can have the same keys. Here a call for the container
  \<open>aff4:/C.1/t\<close> with the query \<open>x:y\<close> and the window \<open>[0, 1)\<close> leaves its
  iterator under the key \<open>aff4:/C.1/t:x:y:1\<close>, which is also the key of the container
  \<open>aff4:/C.1/t:x\<close> with the query \<open>y\<close> at offset 1, whose fresh query yields other
  events. A call for that second request and the window \<open>[1, 2)\<close> then returns an
  event of the first container, where a call on the empty cache returns its own.
\<close>

theorem cache_key_collision:
  "format_key (key_of example_request) 1 = Inr ''aff4:/C.1/t:x:y:1''
   \<and> format_key (key_of colliding_request) 1 = Inr ''aff4:/C.1/t:x:y:1''
   \<and> fresh_query (example_store 3) example_request = Inr (timeline 0 3)
   \<and> fresh_query (example_store 3) colliding_request = Inr (timeline 100 3)
   \<and> BuildTable (example_store 3) init_content_cache 0 1 example_request
       = Inr \<lparr>rows = [(0, timeline 0 3 ! 0)], table_size = Some 2,
              content_cache = [''aff4:/C.1/t:x:y:1'' \<mapsto> drop 1 (timeline 0 3)]\<rparr>
   \<and> BuildTable (example_store 3) [''aff4:/C.1/t:x:y:1'' \<mapsto> drop 1 (timeline 0 3)] 1 2
         colliding_request
       = Inr \<lparr>rows = [(1, timeline 0 3 ! 1)], table_size = Some 3,
              content_cache = [''aff4:/C.1/t:x:y:2'' \<mapsto> drop 2 (timeline 0 3)]\<rparr>
   \<and> BuildTable (example_store 3) init_content_cache 1 2 colliding_request
       = Inr \<lparr>rows = [(1, timeline 100 3 ! 1)], table_size = Some 3,
              content_cache = [''aff4:/C.1/t:x:y:2'' \<mapsto> drop 2 (timeline 100 3)]\<rparr>
   \<and> ev_id (timeline 0 3 ! 1) = 1 \<and> ev_id (timeline 100 3 ! 1) = 101"
  by (simp add: bt_eval)

text \<open>
  What holds of the cache in place of the claim: in every reachable cache, that is as
  long as no call was made for another request with the same key text and other answers,
  an entry under the key of a request at a row is the iterator of a fresh query of the
  request, advanced by that many events, and the row is not negative.
\<close>

theorem reachable_checkpoints:
  assumes "reachable f r c" and "format_key (key_of r) row = Inr k" and "c k = Some events"
  shows "0 \<le> row \<and> (\<exists>all. fresh_query f r = Inr all \<and> events = drop (nat row) all)"
proof -
  have "coherent_for f r c" using assms(1) by (rule reachable_coherent)
  with assms(2,3) have "checkpoint f r row events" by (simp add: coherent_for_def)
  then show ?thesis by (cases "fresh_query f r") (simp_all add: checkpoint_def)
qed

theorem reachable_checkpoints_witness:
  "reachable (example_store 15) example_request [''aff4:/C.1/t:x:y:10'' \<mapsto> drop 10 (timeline 0 15)]
   \<and> format_key (key_of example_request) 10 = Inr ''aff4:/C.1/t:x:y:10''
   \<and> [''aff4:/C.1/t:x:y:10'' \<mapsto> drop 10 (timeline 0 15)] ''aff4:/C.1/t:x:y:10''
       = Some (drop 10 (timeline 0 15))
   \<and> (0 :: int) \<le> 10
   \<and> (\<exists>all. fresh_query (example_store 15) example_request = Inr all
          \<and> drop 10 (timeline 0 15) = drop (nat 10) all)"
proof -
  have c: "[''aff4:/C.1/t:x:y:10'' \<mapsto> drop 10 (timeline 0 15)] ''aff4:/C.1/t:x:y:10''
       = Some (drop 10 (timeline 0 15))"
    by simp
  from reachable_checkpoints [OF example_warm example_key c] example_warm example_key c
  show ?thesis by blast
qed

section \<open>A cache miss is not an error\<close>

text \<open>
  Claim C5. No call raises \<open>KeyError\<close>. A call whose cache lookup fails continues
  with a fresh query and the row counter at \<open>0\<close>, so that for a window
  \<open>0 \<le> start_row < end_row\<close> it skips the first \<open>start_row\<close> events and returns
  the rows of the window; an exception of the store passes through.
\<close>

theorem BuildTable_cache_miss:
  "BuildTable f c s e r \<noteq> Inl KeyError
   \<and> (format_key (key_of r) s = Inr k \<and> cache_Get c k = Inl KeyError \<and> 0 \<le> s \<and> s < e \<longrightarrow>
        BuildTable f c s e r
          = (case fresh_query f r of Inl err \<Rightarrow> Inl err
             | Inr all \<Rightarrow> BuildTable_finish (key_of r) c (BuildTable_loop all 0 s e []))
        \<and> map_sum id rows (BuildTable f c s e r)
          = map_sum id (\<lambda>all. zip [s..e - 1] (drop (nat s) all)) (fresh_query f r))"
proof (intro conjI impI)
  show "BuildTable f c s e r \<noteq> Inl KeyError" by (rule BuildTable_no_KeyError)
next
  assume a: "format_key (key_of r) s = Inr k \<and> cache_Get c k = Inl KeyError \<and> 0 \<le> s \<and> s < e"
  then obtain p where p: "format_prefix Lit (key_of r) = Inr p"
    by (cases "format_prefix Lit (key_of r)") (simp_all add: format_key_def)
  with a have none: "c (key_at p s) = None"
    by (auto simp: format_key_Inr cache_Get_def split: option.splits)
  show path: "BuildTable f c s e r
          = (case fresh_query f r of Inl err \<Rightarrow> Inl err
             | Inr all \<Rightarrow> BuildTable_finish (key_of r) c (BuildTable_loop all 0 s e []))"
    using p none by (rule BuildTable_miss)
  show "map_sum id rows (BuildTable f c s e r)
          = map_sum id (\<lambda>all. zip [s..e - 1] (drop (nat s) all)) (fresh_query f r)"
  proof (cases "fresh_query f r")
    case (Inl err)
    then show ?thesis by (simp add: path)
  next
    case (Inr all)
    with a p show ?thesis
      by (simp add: path loop_miss window_rows_window BuildTable_finish_def format_key_Inr)
  qed
qed

theorem BuildTable_cache_miss_witness:
  "format_key (key_of example_request) 10 = Inr ''aff4:/C.1/t:x:y:10''
   \<and> cache_Get init_content_cache ''aff4:/C.1/t:x:y:10'' = Inl KeyError
   \<and> (0 :: int) \<le> 10 \<and> (10 :: int) < 20
   \<and> map_sum id rows (BuildTable (example_store 15) init_content_cache 10 20 example_request)
       = Inr (zip [10..19] (drop 10 (timeline 0 15)))"
proof -
  have g: "cache_Get init_content_cache ''aff4:/C.1/t:x:y:10'' = Inl KeyError"
    by (simp add: cache_Get_def init_content_cache_def)
  have "(0 :: int) \<le> 10 \<and> (10 :: int) < 20" by simp
  with BuildTable_cache_miss
    [of "example_store 15" init_content_cache 10 20 example_request "''aff4:/C.1/t:x:y:10''"]
    example_key g
  have "map_sum id rows (BuildTable (example_store 15) init_content_cache 10 20 example_request)
      = map_sum id (\<lambda>all. zip [10..20 - 1] (drop (nat 10) all))
          (fresh_query (example_store 15) example_request)"
    by blast
  with example_key g show ?thesis by (simp add: example_query)
qed

section \<open>A checkpoint is used once\<close>

text \<open>
  Claim C6. A call that finds an entry under its key removes it: after the call the
  key is absent, a lookup raises \<open>KeyError\<close>, and a second call with the same
  \<open>start_row\<close> takes the path of the fresh query.
\<close>

theorem BuildTable_single_use:
  assumes "format_key (key_of r) s = Inr k" and "cache_Get c k = Inr events"
  shows "\<exists>t. BuildTable f c s e r = Inr t \<and> content_cache t k = None
           \<and> cache_Get (content_cache t) k = Inl KeyError
           \<and> BuildTable f (content_cache t) s e' r
               = (case fresh_query f r of Inl err \<Rightarrow> Inl err
                  | Inr all \<Rightarrow> BuildTable_finish (key_of r) (content_cache t)
                                 (BuildTable_loop all 0 s e' []))"
proof -
  from assms(1) obtain p where p: "format_prefix Lit (key_of r) = Inr p"
    by (cases "format_prefix Lit (key_of r)") (simp_all add: format_key_def)
  with assms have k: "k = key_at p s" and hit: "c (key_at p s) = Some events"
    by (auto simp: format_key_Inr cache_Get_def split: option.splits)
  define m where "m = max e (s + 1)"
  have ne: "key_at p m \<noteq> key_at p s"
    using key_at_inj [of p m s] by (auto simp: m_def)
  have "BuildTable f c s e r
      = BuildTable_finish (key_of r) (c(key_at p s := None)) (BuildTable_loop events s s e [])"
    using p hit by (rule BuildTable_hit)
  then obtain t where t: "BuildTable f c s e r = Inr t" "content_cache t (key_at p s) = None"
    using p ne
    by (simp add: loop_collect BuildTable_finish_def format_key_Inr cache_Put_def m_def
        split: if_splits)
  from BuildTable_miss [where c = "content_cache t" and s = s, OF p t(2)] t k show ?thesis
    by (simp add: cache_Get_def)
qed

theorem BuildTable_single_use_witness:
  "format_key (key_of example_request) 10 = Inr ''aff4:/C.1/t:x:y:10''
   \<and> cache_Get [''aff4:/C.1/t:x:y:10'' \<mapsto> drop 10 (timeline 0 15)] ''aff4:/C.1/t:x:y:10''
       = Inr (drop 10 (timeline 0 15))
   \<and> (\<exists>t. BuildTable (example_store 15) [''aff4:/C.1/t:x:y:10'' \<mapsto> drop 10 (timeline 0 15)] 10 20
              example_request = Inr t
           \<and> content_cache t ''aff4:/C.1/t:x:y:10'' = None
           \<and> cache_Get (content_cache t) ''aff4:/C.1/t:x:y:10'' = Inl KeyError)"
proof -
  have g: "cache_Get [''aff4:/C.1/t:x:y:10'' \<mapsto> drop 10 (timeline 0 15)] ''aff4:/C.1/t:x:y:10''
       = Inr (drop 10 (timeline 0 15))"
    by (simp add: cache_Get_def)
  from BuildTable_single_use [OF example_key g, of "example_store 15" 20 30] example_key g
  show ?thesis by blast
qed

section \<open>Looking up an event that is not there\<close>

text \<open>
  Claim C8. \<open>GetEvent\<close> returns \<open>None\<close> when the event id is absent or is the
  text \<open>null\<close>, and when it is an integer that is the id of no event of the container.
\<close>

theorem GetEvent_miss:
  "(REQ_event r = None \<or> REQ_event r = Some ''null'' \<longrightarrow> GetEvent f r = Inr None)
   \<and> (REQ_event r = Some event_id \<and> event_id \<noteq> ''null'' \<and> py_int event_id = Inr n
        \<and> FACTORY_Open f (REQ_container r) (token r) = Inr fd
        \<and> n \<notin> ev_id ` set (fd_children fd) \<longrightarrow> GetEvent f r = Inr None)"
  by (auto simp: GetEvent_def find_None_iff)

theorem GetEvent_miss_witness:
  "GetEvent (example_store 15) (example_request\<lparr>REQ_event := Some ''null''\<rparr>) = Inr None
   \<and> GetEvent (example_store 15) example_request = Inr None
   \<and> py_int ''77'' = Inr 77
   \<and> FACTORY_Open (example_store 15) ''aff4:/C.1/t'' ''tok''
       = Inr \<lparr>fd_children = timeline 0 15, fd_Query = (\<lambda>q. Inr (timeline 0 15))\<rparr>
   \<and> 77 \<notin> ev_id ` set (timeline 0 15)
   \<and> GetEvent (example_store 15) (example_request\<lparr>REQ_event := Some ''77''\<rparr>) = Inr None"
proof -
  have p: "py_int ''77'' = Inr 77"
    by (simp add: py_int_def strip_def is_space_def nat_of_digits_def digit_val_def is_digit_def)
  have o: "FACTORY_Open (example_store 15) ''aff4:/C.1/t'' ''tok''
       = Inr \<lparr>fd_children = timeline 0 15, fd_Query = (\<lambda>q. Inr (timeline 0 15))\<rparr>"
    by (simp add: eval_simps)
  have n: "77 \<notin> ev_id ` set (timeline 0 15)"
    by (auto simp: timeline_def)
  from GetEvent_miss [where r = "example_request\<lparr>REQ_event := Some ''null''\<rparr>"
      and f = "example_store 15"]
    GetEvent_miss [where r = example_request and f = "example_store 15"]
    GetEvent_miss [where r = "example_request\<lparr>REQ_event := Some ''77''\<rparr>"
      and event_id = "''77''" and n = 77 and f = "example_store 15"
      and fd = "\<lparr>fd_children = timeline 0 15, fd_Query = (\<lambda>q. Inr (timeline 0 15))\<rparr>"]
    p o n
  show ?thesis by (simp add: example_request_def)
qed

section \<open>Looking up a malformed event id\<close>

text \<open>
  Claim C10. An event id that is present, is not \<open>null\<close> and is no integer literal
  makes \<open>GetEvent\<close> raise the \<open>ValueError\<close> of \<open>int(event_id)\<close>, whatever the
  container.
\<close>

theorem GetEvent_malformed_id:
  assumes "REQ_event r = Some event_id" and "event_id \<noteq> ''null''" and "py_int event_id = Inl err"
  shows "GetEvent f r = Inl ValueError"
  using assms py_int_error [OF assms(3)] by (simp add: GetEvent_def)

theorem GetEvent_malformed_id_witness:
  "REQ_event (example_request\<lparr>REQ_event := Some ''abc''\<rparr>) = Some ''abc''
   \<and> ''abc'' \<noteq> ''null''
   \<and> py_int ''abc'' = Inl ValueError
   \<and> GetEvent (example_store 15) (example_request\<lparr>REQ_event := Some ''abc''\<rparr>) = Inl ValueError"
proof -
  have p: "py_int ''abc'' = Inl ValueError"
    by (simp add: py_int_def strip_def is_space_def nat_of_digits_def digit_val_def is_digit_def)
  from GetEvent_malformed_id [where r = "example_request\<lparr>REQ_event := Some ''abc''\<rparr>"
      and event_id = "''abc''" and err = ValueError and f = "example_store 15"] p
  show ?thesis by simp
qed

end
